theory Spec2Isabelle
  imports Main "HOL-Library.Sublist"
begin

section \<open>The script \<open>apiserver/fix_protos.py\<close>\<close>

text \<open>
  The script reads one TypeScript file, builds a table \<open>fixes\<close> of regular-expression
  rewrite rules, performs one literal \<open>str.replace\<close> on the text, writes the text back and
  prints a notice. The table is bound to a name that no later statement mentions.

  Texts are modelled as \<^typ>\<open>string\<close>, so a text is a list of code points below 256; all
  literals of the script are ASCII.
\<close>

subsection \<open>String operations of the Python library\<close>

text \<open>
  \<open>s.replace(old, new)\<close>: a left-to-right scan that replaces each occurrence found and
  continues behind it; with an empty \<open>old\<close> the replacement is put before every character
  and at the end.
\<close>

fun str_replace :: "'a list \<Rightarrow> 'a list \<Rightarrow> 'a list \<Rightarrow> 'a list" where
  "str_replace [] new s = new @ concat (map (\<lambda>c. c # new) s)"
| "str_replace (a # old) new [] = []"
| "str_replace (a # old) new (c # cs) =
     (if prefix (a # old) (c # cs)
      then new @ str_replace (a # old) new (drop (length old) cs)
      else c # str_replace (a # old) new cs)"

text \<open>
  The number of positions of \<open>s\<close> at which \<open>pat\<close> starts. For a pattern that cannot
  overlap itself, such as \<open>return create(\<close>, this is \<open>s.count(pat)\<close>.
\<close>

fun str_count :: "'a list \<Rightarrow> 'a list \<Rightarrow> nat" where
  "str_count pat [] = (if pat = [] then 1 else 0)"
| "str_count pat (c # cs) = (if prefix pat (c # cs) then 1 else 0) + str_count pat cs"

text \<open>\<open>sep.join(ps)\<close>.\<close>

fun str_join :: "'a list \<Rightarrow> 'a list list \<Rightarrow> 'a list" where
  "str_join sep [] = []"
| "str_join sep [p] = p"
| "str_join sep (p # q # ps) = p @ sep @ str_join sep (q # ps)"

text \<open>
  Two decidable side conditions on a pattern and a separator: no proper non-empty suffix
  of the pattern starts the separator, and no proper non-empty prefix of the pattern ends it.
\<close>

definition no_head_overlap :: "'a list \<Rightarrow> 'a list \<Rightarrow> bool" where
  "no_head_overlap pat v = list_all (\<lambda>k. \<not> prefix (drop k pat) v) [1..<length pat]"

definition no_tail_overlap :: "'a list \<Rightarrow> 'a list \<Rightarrow> bool" where
  "no_tail_overlap pat u = list_all (\<lambda>k. \<not> suffix (take k pat) u) [1..<length pat]"

subsection \<open>Regular expressions of the rule table\<close>

text \<open>
  The constructs that occur in the patterns of \<open>fixes\<close>: literal text, character sets
  (\<^verbatim>\<open>\s\<close>, \<^verbatim>\<open>[\s\S]\<close>, \<^verbatim>\<open>[\s,]\<close>, \<^verbatim>\<open>[\s\n]\<close>, \<^verbatim>\<open>[^}]\<close>) under the greedy \<^verbatim>\<open>+\<close> and the
  lazy \<^verbatim>\<open>*?\<close>, sequence, alternation, numbered groups, the lookahead \<^verbatim>\<open>(?=...)\<close> and
  the anchors \<^verbatim>\<open>^\<close> and \<^verbatim>\<open>$\<close> (no flag is set, so \<^verbatim>\<open>^\<close> holds at the start of the text
  only and \<^verbatim>\<open>$\<close> at its end or before a final newline).
\<close>

datatype atom = Lit char | WS | NonWS

datatype cset = In "atom list" | NotIn "atom list"

datatype regex =
    Text string
  | Plus cset
  | LazyStar cset
  | Seq regex regex
  | Alt regex regex
  | Group nat regex
  | Ahead regex
  | Bol
  | Eol

text \<open>A replacement is a template with group references or a function of the match.\<close>

datatype tpart = TLit string | TRef nat

datatype repl = Template "tpart list" | Computed "(nat \<Rightarrow> string) \<Rightarrow> string"

text \<open>
  A matcher state: whether the position is the start of the text, the text that is left,
  and the groups captured so far (latest first).
\<close>

type_synonym mstate = "bool \<times> string \<times> (nat \<times> string) list"

text \<open>The characters for which \<open>str.isspace\<close> holds, among the code points below 256.\<close>

definition is_space :: "char \<Rightarrow> bool" where
  "is_space c = (c \<in> set [CHR 0x09, CHR 0x0A, CHR 0x0B, CHR 0x0C, CHR 0x0D,
     CHR 0x1C, CHR 0x1D, CHR 0x1E, CHR 0x1F, CHR 0x20, CHR 0x85, CHR 0xA0])"

fun in_atom :: "atom \<Rightarrow> char \<Rightarrow> bool" where
  "in_atom (Lit a) c = (c = a)"
| "in_atom WS c = is_space c"
| "in_atom NonWS c = (\<not> is_space c)"

fun in_cset :: "cset \<Rightarrow> char \<Rightarrow> bool" where
  "in_cset (In as) c = list_ex (\<lambda>a. in_atom a c) as"
| "in_cset (NotIn as) c = (\<not> list_ex (\<lambda>a. in_atom a c) as)"

text \<open>
  Every way a pattern can match at a state, in the order in which a backtracking matcher
  tries them: \<^verbatim>\<open>+\<close> offers the longest run first, \<^verbatim>\<open>*?\<close> the shortest.
\<close>

fun greedy_plus :: "cset \<Rightarrow> mstate \<Rightarrow> mstate list" where
  "greedy_plus cs (b, [], g) = []"
| "greedy_plus cs (b, c # s, g) =
     (if in_cset cs c then greedy_plus cs (False, s, g) @ [(False, s, g)] else [])"

fun lazy_star :: "cset \<Rightarrow> mstate \<Rightarrow> mstate list" where
  "lazy_star cs (b, [], g) = [(b, [], g)]"
| "lazy_star cs (b, c # s, g) =
     (b, c # s, g) # (if in_cset cs c then lazy_star cs (False, s, g) else [])"

fun rmatch :: "regex \<Rightarrow> mstate \<Rightarrow> mstate list" where
  "rmatch (Text t) (b, s, g) =
     (if prefix t s then [(b \<and> t = [], drop (length t) s, g)] else [])"
| "rmatch (Plus cs) st = greedy_plus cs st"
| "rmatch (LazyStar cs) st = lazy_star cs st"
| "rmatch (Seq r1 r2) st = concat (map (rmatch r2) (rmatch r1 st))"
| "rmatch (Alt r1 r2) st = rmatch r1 st @ rmatch r2 st"
| "rmatch (Group n r) (b, s, g) =
     map (\<lambda>(b', s', g'). (b', s', (n, take (length s - length s') s) # g'))
       (rmatch r (b, s, g))"
| "rmatch (Ahead r) (b, s, g) =
     (case rmatch r (b, s, g) of [] \<Rightarrow> [] | (b', s', g') # ms \<Rightarrow> [(b, s, g')])"
| "rmatch Bol (b, s, g) = (if b then [(b, s, g)] else [])"
| "rmatch Eol (b, s, g) = (if s = [] \<or> s = ''\<newline>'' then [(b, s, g)] else [])"

definition cat :: "regex list \<Rightarrow> regex" where
  "cat rs = foldr Seq rs (Text [])"

text \<open>\<open>re.search(r, s) is not None\<close>: the pattern matches at some position of the text.\<close>

fun search :: "regex \<Rightarrow> bool \<Rightarrow> string \<Rightarrow> bool" where
  "search r b [] = (rmatch r (b, [], []) \<noteq> [])"
| "search r b (c # cs) = (rmatch r (b, c # cs, []) \<noteq> [] \<or> search r False cs)"

definition has_match :: "regex \<Rightarrow> string \<Rightarrow> bool" where
  "has_match r s = search r True s"

text \<open>\<open>m.group(n)\<close>; every group of the table takes part in every match of its pattern.\<close>

definition m_group :: "(nat \<times> string) list \<Rightarrow> nat \<Rightarrow> string" where
  "m_group g n = (case map_of g n of None \<Rightarrow> [] | Some t \<Rightarrow> t)"

fun expand :: "repl \<Rightarrow> (nat \<times> string) list \<Rightarrow> string" where
  "expand (Template ps) g =
     concat (map (\<lambda>p. case p of TLit t \<Rightarrow> t | TRef n \<Rightarrow> m_group g n) ps)"
| "expand (Computed f) g = f (m_group g)"

definition first_match :: "regex \<Rightarrow> bool \<Rightarrow> bool \<Rightarrow> string \<Rightarrow> mstate option" where
  "first_match r must_advance b s =
     find (\<lambda>(b', s', g'). \<not> must_advance \<or> length s' < length s) (rmatch r (b, s, []))"

text \<open>
  \<open>re.sub(r, rp, s)\<close>: the global substitution the specification describes for one rule.
  The counter is the number of characters still covered by the last match; after an empty
  match the same position is tried once more for a non-empty one.
\<close>

fun sub_scan :: "regex \<Rightarrow> repl \<Rightarrow> bool \<Rightarrow> nat \<Rightarrow> string \<Rightarrow> string" where
  "sub_scan r rp b (Suc k) [] = []"
| "sub_scan r rp b (Suc k) (c # cs) = sub_scan r rp False k cs"
| "sub_scan r rp b 0 [] =
     (case first_match r False b [] of None \<Rightarrow> [] | Some (b', s', g) \<Rightarrow> expand rp g)"
| "sub_scan r rp b 0 (c # cs) =
     (case first_match r False b (c # cs) of
        None \<Rightarrow> c # sub_scan r rp False 0 cs
      | Some (b', s', g) \<Rightarrow>
          if length s' < length (c # cs)
          then expand rp g @ sub_scan r rp False (length cs - length s') cs
          else expand rp g @
            (case first_match r True b (c # cs) of
               None \<Rightarrow> c # sub_scan r rp False 0 cs
             | Some (b'', s'', g'') \<Rightarrow>
                 expand rp g'' @ sub_scan r rp False (length cs - length s'') cs))"

definition re_sub :: "regex \<Rightarrow> repl \<Rightarrow> string \<Rightarrow> string" where
  "re_sub r rp s = sub_scan r rp True 0 s"

text \<open>
  The operation \<open>apply(rules, text)\<close> as the specification words it: the rules in declaration
  order, each a global substitution over the current text. The script has no such loop.
\<close>

definition spec_apply :: "(regex \<times> repl) list \<Rightarrow> string \<Rightarrow> string" where
  "spec_apply rules s = foldl (\<lambda>t (r, rp). re_sub r rp t) s rules"

subsection \<open>The rule table (lines 9 to 48)\<close>

definition any_char :: cset where
  "any_char = In [WS, NonWS]"

definition upto_marker :: "string \<Rightarrow> regex" where
  "upto_marker name = Ahead (cat [LazyStar any_char, Text name])"

text \<open>
  Rule 1, \<^verbatim>\<open>(\s+)(return \{ strategy \};)(\s+\}[\s,]+async updateStrategyPrivacy)\<close> with
  the template \<^verbatim>\<open>\1return create(UpdateStrategyPrivacyResponseSchema, { strategy });\3\<close>.
\<close>

definition rule_UpdateStrategyPrivacy :: "regex \<times> repl" where
  "rule_UpdateStrategyPrivacy =
    (cat [Group 1 (Plus (In [WS])),
          Group 2 (Text ''return { strategy };''),
          Group 3 (cat [Plus (In [WS]), Text ''}'', Plus (In [WS, Lit CHR '','']),
                        Text ''async updateStrategyPrivacy''])],
     Template [TRef 1,
               TLit ''return create(UpdateStrategyPrivacyResponseSchema, { strategy });'',
               TRef 3])"

text \<open>
  Rule 2,
  \<^verbatim>\<open>(async sendOTP[\s\S]*?)(return \{[\s\n]+success: (true|false),[\s\n]+message: ([^}]+)\};)\<close>
  with the function
  \<^verbatim>\<open>lambda m: m.group(1) + f'return create(SendOTPResponseSchema, {{ success: {m.group(3)}, message: {m.group(4)}}});'\<close>.
\<close>

definition rule_SendOTP :: "regex \<times> repl" where
  "rule_SendOTP =
    (cat [Group 1 (cat [Text ''async sendOTP'', LazyStar any_char]),
          Group 2 (cat [Text ''return {'', Plus (In [WS, Lit CHR ''\<newline>'']),
                        Text ''success: '', Group 3 (Alt (Text ''true'') (Text ''false'')),
                        Text '','', Plus (In [WS, Lit CHR ''\<newline>'']),
                        Text ''message: '', Group 4 (Plus (NotIn [Lit CHR ''}''])),
                        Text ''};''])],
     Computed (\<lambda>group. group 1 @ ''return create(SendOTPResponseSchema, { success: ''
                 @ group 3 @ '', message: '' @ group 4 @ ''});''))"

text \<open>
  Rule 3, \<^verbatim>\<open>return \{ user: (protoUser|undefined) \};(?=[\s\S]*?async updateUser)\<close> with
  \<^verbatim>\<open>return create(GetCurrentUserResponseSchema, { user: \1 });\<close>.
\<close>

definition rule_GetCurrentUser :: "regex \<times> repl" where
  "rule_GetCurrentUser =
    (cat [Text ''return { user: '', Group 1 (Alt (Text ''protoUser'') (Text ''undefined'')),
          Text '' };'', upto_marker ''async updateUser''],
     Template [TLit ''return create(GetCurrentUserResponseSchema, { user: '', TRef 1,
               TLit '' });''])"

text \<open>
  Rules 4 to 9 have the shape \<^verbatim>\<open>return \{ ... \};(?=[\s\S]*?async NAME)\<close> with a template
  free of group references.
\<close>

definition rule_UpdateUser :: "regex \<times> repl" where
  "rule_UpdateUser =
    (cat [Text ''return { user: protoUser };'', upto_marker ''async followUser''],
     Template [TLit ''return create(UpdateUserResponseSchema, { user: protoUser });''])"

definition rule_FollowUser :: "regex \<times> repl" where
  "rule_FollowUser =
    (cat [Text ''return { success: true };'', upto_marker ''async unfollowUser''],
     Template [TLit ''return create(FollowUserResponseSchema, { success: true });''])"

definition rule_UnfollowUser :: "regex \<times> repl" where
  "rule_UnfollowUser =
    (cat [Text ''return { success: true };'', upto_marker ''async listFollowing''],
     Template [TLit ''return create(UnfollowUserResponseSchema, { success: true });''])"

definition rule_ListFollowing :: "regex \<times> repl" where
  "rule_ListFollowing =
    (cat [Text ''return { users };'', upto_marker ''async listFollowers''],
     Template [TLit ''return create(ListFollowingResponseSchema, { users });''])"

definition rule_ListFollowers :: "regex \<times> repl" where
  "rule_ListFollowers =
    (cat [Text ''return { users };'', upto_marker ''async listCloseFriends''],
     Template [TLit ''return create(ListFollowersResponseSchema, { users });''])"

definition rule_ListCloseFriends :: "regex \<times> repl" where
  "rule_ListCloseFriends =
    (cat [Text ''return { users };'', upto_marker ''async getUserProfile''],
     Template [TLit ''return create(ListCloseFriendsResponseSchema, { users });''])"

text \<open>
  Rule 10, \<^verbatim>\<open>return \{ strategy \};(?=[\s\S]*?^\};$)\<close> with
  \<^verbatim>\<open>return create(CopyStrategyResponseSchema, { strategy });\<close>.
\<close>

definition rule_CopyStrategy :: "regex \<times> repl" where
  "rule_CopyStrategy =
    (cat [Text ''return { strategy };'',
          Ahead (cat [LazyStar any_char, Bol, Text ''};'', Eol])],
     Template [TLit ''return create(CopyStrategyResponseSchema, { strategy });''])"

definition fixes_table :: "(regex \<times> repl) list" where
  "fixes_table =
    [rule_UpdateStrategyPrivacy, rule_SendOTP, rule_GetCurrentUser, rule_UpdateUser,
     rule_FollowUser, rule_UnfollowUser, rule_ListFollowing, rule_ListFollowers,
     rule_ListCloseFriends, rule_CopyStrategy]"

subsection \<open>The literal replacement (lines 50 to 54)\<close>

definition old_literal :: string where
  "old_literal = ''return { strategy };\<newline>  },\<newline>\<newline>  async updateStrategyPrivacy(''"

definition new_literal :: string where
  "new_literal =
    ''return create(UpdateStrategyPrivacyResponseSchema, { strategy });\<newline>  },\<newline>\<newline>  async updateStrategyPrivacy(''"

text \<open>
  The text transformation between reading and writing, for a rule table \<open>rules\<close> in the
  place of \<open>fixes\<close>: the table is built and the one statement that changes \<open>content\<close> is
  the literal replacement.
\<close>

definition transform :: "(regex \<times> repl) list \<Rightarrow> string \<Rightarrow> string" where
  "transform rules content = str_replace old_literal new_literal content"

subsection \<open>Files, streams and the run of the script\<close>

text \<open>
  \<open>open\<close> raises \<open>FileNotFoundError\<close> or \<open>PermissionError\<close>, both subclasses of \<open>OSError\<close>
  (\<open>IOError\<close> is the same class). The script has no \<open>try\<close>: an exception ends the run.
  A file holds its text as \<open>f.read()\<close> returns it and \<open>f.write\<close> takes it in text mode;
  the bytes on disk, their decoding and the translation of line ends are below the model.
  The world also holds what the script could have read and does not: the environment and
  the command line.
\<close>

datatype os_error = FileNotFoundError | PermissionError

record text_file =
  content :: string
  readable :: bool
  writable :: bool

record world =
  files :: "string \<rightharpoonup> text_file"
  stdout :: string
  environ :: "string \<rightharpoonup> string"
  argv :: "string list"

definition target_path :: string where
  "target_path =
    ''/Users/daronmcintosh/repos/stockpicker/apiserver/src/services/strategyService.ts''"

definition notice :: string where
  "notice = ''Fixed strategyService.ts\<newline>''"

text \<open>\<open>with open(path, 'r') as f: content = f.read()\<close>\<close>

definition open_read :: "string \<Rightarrow> world \<Rightarrow> os_error + string" where
  "open_read path w =
     (case files w path of
        None \<Rightarrow> Inl FileNotFoundError
      | Some f \<Rightarrow> if readable f then Inr (content f) else Inl PermissionError)"

text \<open>\<open>with open(path, 'w') as f: f.write(data)\<close>; mode \<open>'w'\<close> creates a missing file.\<close>

definition open_write :: "string \<Rightarrow> string \<Rightarrow> world \<Rightarrow> os_error + world" where
  "open_write path data w =
     (case files w path of
        None \<Rightarrow>
          Inr (w\<lparr>files := (files w)(path \<mapsto> \<lparr>content = data, readable = True, writable = True\<rparr>)\<rparr>)
      | Some f \<Rightarrow>
          if writable f then Inr (w\<lparr>files := (files w)(path \<mapsto> f\<lparr>content := data\<rparr>)\<rparr>)
          else Inl PermissionError)"

definition print :: "string \<Rightarrow> world \<Rightarrow> world" where
  "print line w = w\<lparr>stdout := stdout w @ line\<rparr>"

text \<open>The whole script, with \<open>rules\<close> in the place of the table.\<close>

definition run :: "(regex \<times> repl) list \<Rightarrow> world \<Rightarrow> (os_error + unit) \<times> world" where
  "run rules w =
     (case open_read target_path w of
        Inl e \<Rightarrow> (Inl e, w)
      | Inr text0 \<Rightarrow>
          (case open_write target_path (transform rules text0) w of
             Inl e \<Rightarrow> (Inl e, w)
           | Inr w' \<Rightarrow> (Inr (), print notice w')))"

definition fix_protos :: "world \<Rightarrow> (os_error + unit) \<times> world" where
  "fix_protos w = run fixes_table w"

subsection \<open>Sample inputs\<close>

definition return_create :: string where
  "return_create = ''return create(''"

text \<open>A world whose only file is the target, readable and writable, with the given text.\<close>

definition sample_world :: "string \<Rightarrow> world" where
  "sample_world s =
     \<lparr>files = [target_path \<mapsto> \<lparr>content = s, readable = True, writable = True\<rparr>],
      stdout = [], environ = Map.empty, argv = []\<rparr>"

definition locked_world :: "bool \<Rightarrow> bool \<Rightarrow> world" where
  "locked_world r wr =
     \<lparr>files = [target_path \<mapsto> \<lparr>content = ''return { strategy };'', readable = r, writable = wr\<rparr>],
      stdout = [], environ = Map.empty, argv = []\<rparr>"

definition empty_world :: world where
  "empty_world = \<lparr>files = Map.empty, stdout = [], environ = Map.empty, argv = []\<rparr>"

definition follow_input :: string where
  "follow_input = ''    return { success: true };\<newline>  },\<newline>\<newline>  async unfollowUser(''"

definition follow_expected :: string where
  "follow_expected =
    ''    return create(FollowUserResponseSchema, { success: true });\<newline>  },\<newline>\<newline>  async unfollowUser(''"

definition otp_input :: string where
  \<open>otp_input =
    ''async sendOTP(req) {\<newline>return {\<newline>  success: true,\<newline>  message: "ok"};\<newline>}''\<close>

definition otp_expected :: string where
  \<open>otp_expected =
    ''async sendOTP(req) {\<newline>return create(SendOTPResponseSchema, { success: true, message: "ok"});\<newline>}''\<close>

definition users_input :: string where
  "users_input =
    ''return { users };\<newline>  },\<newline>  async listFollowers() {\<newline>    return { users };\<newline>  },\<newline>  async getUserProfile(''"

definition users_expected :: string where
  "users_expected =
    ''return create(ListFollowingResponseSchema, { users });\<newline>  },\<newline>  async listFollowers() {\<newline>    return create(ListCloseFriendsResponseSchema, { users });\<newline>  },\<newline>  async getUserProfile(''"

definition otp_fragment :: string where
  \<open>otp_fragment = ''return {\<newline>  success: true,\<newline>  message: "ok"};''\<close>

definition otp_create :: string where
  \<open>otp_create = ''return create(SendOTPResponseSchema, { success: true, message: "ok"});''\<close>

definition counted_input :: string where
  "counted_input = ''return create(x);'' @ old_literal"

section \<open>Lemmas\<close>

subsection \<open>Scanning, counting and joining\<close>

lemma str_replace_hit:
  "old \<noteq> [] \<Longrightarrow> prefix old s \<Longrightarrow>
     str_replace old new s = new @ str_replace old new (drop (length old) s)"
  by (cases old; cases s) auto

lemma str_replace_miss:
  "old \<noteq> [] \<Longrightarrow> \<not> prefix old (c # cs) \<Longrightarrow>
     str_replace old new (c # cs) = c # str_replace old new cs"
  by (cases old) auto

lemma str_count_sublist: "pat \<noteq> [] \<Longrightarrow> sublist pat s \<longleftrightarrow> 0 < str_count pat s"
  by (induction s) (auto simp: sublist_Cons_right)

lemma str_replace_absent:
  assumes "old \<noteq> []"
  shows "\<not> sublist old s \<Longrightarrow> str_replace old new s = s"
proof (induction s)
  case Nil
  with assms show ?case by (cases old) auto
next
  case (Cons c cs)
  then have np: "\<not> prefix old (c # cs)" and ns: "\<not> sublist old cs"
    by (auto simp: sublist_Cons_right)
  have "str_replace old new (c # cs) = c # str_replace old new cs"
    using assms np by (rule str_replace_miss)
  also have "\<dots> = c # cs" using Cons.IH[OF ns] by simp
  finally show ?case .
qed

lemma prefix_append_cases:
  assumes "prefix pat (u @ v)" "\<not> prefix pat u"
  shows "take (length u) pat = u \<and> length u < length pat \<and> prefix (drop (length u) pat) v"
proof -
  from assms have "\<exists>w. pat = u @ w \<and> prefix w v"
    by (auto simp: prefix_append)
  then obtain w where w: "pat = u @ w" "prefix w v" by blast
  with assms(2) have "w \<noteq> []" by auto
  with w show ?thesis by auto
qed

lemma str_count_append:
  assumes "pat \<noteq> []"
    and "\<And>k. 0 < k \<Longrightarrow> k < length pat \<Longrightarrow> \<not> (suffix (take k pat) u \<and> prefix (drop k pat) v)"
  shows "str_count pat (u @ v) = str_count pat u + str_count pat v"
  using assms(2)
proof (induction u)
  case Nil
  with assms(1) show ?case by simp
next
  case (Cons c u)
  have ih: "str_count pat (u @ v) = str_count pat u + str_count pat v"
  proof (rule Cons.IH)
    fix k assume "0 < k" "k < length pat"
    from Cons.prems[OF this] show "\<not> (suffix (take k pat) u \<and> prefix (drop k pat) v)"
      by (auto simp: suffix_Cons)
  qed
  have "prefix pat (c # u @ v) \<longleftrightarrow> prefix pat (c # u)"
  proof
    assume p: "prefix pat (c # u @ v)"
    show "prefix pat (c # u)"
    proof (rule ccontr)
      assume n: "\<not> prefix pat (c # u)"
      from prefix_append_cases[of pat "c # u" v] p n
      have "take (length (c # u)) pat = c # u" "length (c # u) < length pat"
        "prefix (drop (length (c # u)) pat) v" by auto
      with Cons.prems[of "length (c # u)"] show False by auto
    qed
  next
    assume "prefix pat (c # u)"
    then show "prefix pat (c # u @ v)"
      using prefix_prefix[of pat "c # u" v] by simp
  qed
  with ih show ?case by simp
qed

lemma no_head_overlapD:
  "no_head_overlap pat v \<Longrightarrow> 0 < k \<Longrightarrow> k < length pat \<Longrightarrow> \<not> prefix (drop k pat) v"
  by (auto simp: no_head_overlap_def list_all_iff)

lemma no_tail_overlapD:
  "no_tail_overlap pat u \<Longrightarrow> 0 < k \<Longrightarrow> k < length pat \<Longrightarrow> \<not> suffix (take k pat) u"
  by (auto simp: no_tail_overlap_def list_all_iff)

lemma prefix_short_append:
  "length w \<le> length sep \<Longrightarrow> prefix w (sep @ r) \<longleftrightarrow> prefix w sep"
  by (metis prefix_length_prefix prefix_prefix append_prefixD prefix_order.dual_order.refl prefix_append)

lemma str_count_before_sep:
  assumes "pat \<noteq> []" "no_head_overlap pat sep" "length pat \<le> Suc (length sep)"
  shows "str_count pat (p @ sep @ r) = str_count pat p + str_count pat (sep @ r)"
proof (rule str_count_append[OF assms(1)])
  fix k assume k: "0 < k" "k < length pat"
  then have "length (drop k pat) \<le> length sep" using assms(3) by simp
  then have "prefix (drop k pat) (sep @ r) \<longleftrightarrow> prefix (drop k pat) sep"
    by (rule prefix_short_append)
  with no_head_overlapD[OF assms(2) k]
  show "\<not> (suffix (take k pat) p \<and> prefix (drop k pat) (sep @ r))" by simp
qed

lemma str_count_after_sep:
  assumes "pat \<noteq> []" "no_tail_overlap pat sep"
  shows "str_count pat (sep @ r) = str_count pat sep + str_count pat r"
proof (rule str_count_append[OF assms(1)])
  fix k assume k: "0 < k" "k < length pat"
  with no_tail_overlapD[OF assms(2) k]
  show "\<not> (suffix (take k pat) sep \<and> prefix (drop k pat) r)" by simp
qed

lemma str_count_join:
  assumes "pat \<noteq> []" "no_head_overlap pat sep" "no_tail_overlap pat sep"
    "length pat \<le> Suc (length sep)"
  shows "ps \<noteq> [] \<Longrightarrow> str_count pat (str_join sep ps) =
    sum_list (map (str_count pat) ps) + (length ps - 1) * str_count pat sep"
proof (induction ps rule: induct_list012)
  case 1
  then show ?case by simp
next
  case (2 p)
  then show ?case by simp
next
  case (3 p q ps)
  have "str_count pat (p @ sep @ str_join sep (q # ps)) =
      str_count pat p + (str_count pat sep + str_count pat (str_join sep (q # ps)))"
    using str_count_before_sep[OF assms(1,2,4), of p "str_join sep (q # ps)"]
      str_count_after_sep[OF assms(1,3), of "str_join sep (q # ps)"] by simp
  with 3 show ?case by simp
qed

lemma str_replace_pieces:
  assumes "old \<noteq> []"
  shows "\<exists>ps. ps \<noteq> [] \<and> s = str_join old ps \<and> str_replace old new s = str_join new ps
     \<and> (\<forall>p\<in>set ps. \<not> sublist old p)"
proof (induction s rule: length_induct)
  case (1 s)
  from assms obtain a old' where old: "old = a # old'" by (cases old) auto
  show ?case
  proof (cases s)
    case Nil
    with old have "str_replace old new s = str_join new [[]]" "s = str_join old [[]]"
      "\<forall>p\<in>set [[]]. \<not> sublist old p" by auto
    then show ?thesis by blast
  next
    case (Cons c cs)
    show ?thesis
    proof (cases "prefix old s")
      case True
      let ?r = "drop (length old) s"
      from True have s: "s = old @ ?r" by (metis prefix_def append_eq_conv_conj)
      have "length ?r < length s" using Cons old by simp
      with 1 obtain ps where ps: "ps \<noteq> []" "?r = str_join old ps"
        "str_replace old new ?r = str_join new ps" "\<forall>p\<in>set ps. \<not> sublist old p" by blast
      from ps(1) obtain q qs where qq: "ps = q # qs" by (cases ps) auto
      have "str_replace old new s = new @ str_replace old new ?r"
        using True assms by (rule str_replace_hit[rotated])
      with ps qq s have "str_replace old new s = str_join new ([] # ps)" "s = str_join old ([] # ps)"
        "\<forall>p\<in>set ([] # ps). \<not> sublist old p" using old by auto
      then show ?thesis by blast
    next
      case False
      have "length cs < length s" using Cons by simp
      with 1 obtain ps where ps: "ps \<noteq> []" "cs = str_join old ps"
        "str_replace old new cs = str_join new ps" "\<forall>p\<in>set ps. \<not> sublist old p" by blast
      from ps(1) obtain q qs where qq: "ps = q # qs" by (cases ps) auto
      have r: "str_replace old new s = c # str_replace old new cs"
        using False assms unfolding Cons by (rule str_replace_miss[rotated])
      have np: "\<not> prefix old (c # q)"
      proof
        assume "prefix old (c # q)"
        moreover have "prefix (c # q) s" using ps(2) qq Cons by (cases qs) auto
        ultimately show False using False by auto
      qed
      have "\<not> sublist old (c # q)" using np ps(4) qq by (auto simp: sublist_Cons_right)
      moreover have "s = str_join old ((c # q) # qs)" using ps(2) qq Cons by (cases qs) auto
      moreover have "str_replace old new s = str_join new ((c # q) # qs)"
        using r ps(3) qq by (cases qs) auto
      ultimately have "(c # q) # qs \<noteq> [] \<and> s = str_join old ((c # q) # qs) \<and>
        str_replace old new s = str_join new ((c # q) # qs) \<and>
        (\<forall>p\<in>set ((c # q) # qs). \<not> sublist old p)" using ps(4) qq by auto
      then show ?thesis by blast
    qed
  qed
qed


lemma str_replace_piece:
  assumes "old \<noteq> []" "no_head_overlap old old"
  shows "\<not> sublist old p \<Longrightarrow> str_replace old new (p @ old @ r) = p @ new @ str_replace old new r"
proof (induction p)
  case Nil
  have "str_replace old new (old @ r) = new @ str_replace old new (drop (length old) (old @ r))"
    using assms(1) by (rule str_replace_hit) simp
  then show ?case by simp
next
  case (Cons c p)
  then have np: "\<not> prefix old (c # p)" and ns: "\<not> sublist old p"
    by (auto simp: sublist_Cons_right)
  have "\<not> prefix old ((c # p) @ old @ r)"
  proof
    assume pr: "prefix old ((c # p) @ old @ r)"
    from prefix_append_cases[OF pr np]
    have k: "length (c # p) < length old" "prefix (drop (length (c # p)) old) (old @ r)"
      by auto
    have "length (drop (length (c # p)) old) \<le> length old" by simp
    then have "prefix (drop (length (c # p)) old) old"
      using k(2) prefix_short_append by blast
    with no_head_overlapD[OF assms(2), of "length (c # p)"] k(1) show False by simp
  qed
  then have "str_replace old new ((c # p) @ old @ r) = c # str_replace old new (p @ old @ r)"
    using str_replace_miss[OF assms(1), of c "p @ old @ r" new] by simp
  with Cons.IH[OF ns] show ?case by simp
qed

lemma str_replace_join:
  assumes "old \<noteq> []" "no_head_overlap old old"
  shows "ps \<noteq> [] \<Longrightarrow> \<forall>p\<in>set ps. \<not> sublist old p \<Longrightarrow>
    str_replace old new (str_join old ps) = str_join new ps"
proof (induction ps rule: induct_list012)
  case 1
  then show ?case by simp
next
  case (2 p)
  then show ?case using str_replace_absent[OF assms(1)] by simp
next
  case (3 p q ps)
  then have "\<not> sublist old p" by simp
  from str_replace_piece[OF assms this, of new "str_join old (q # ps)"] 3
  show ?case by simp
qed

lemma str_replace_around:
  assumes "old \<noteq> []" "no_head_overlap old old"
  shows "str_replace old new (a @ old @ b) = str_replace old new a @ new @ str_replace old new b"
proof -
  from str_replace_pieces[OF assms(1), of a new] obtain ps where ps: "ps \<noteq> []"
    "a = str_join old ps" "str_replace old new a = str_join new ps"
    "\<forall>p\<in>set ps. \<not> sublist old p" by blast
  have "ps \<noteq> [] \<Longrightarrow> \<forall>p\<in>set ps. \<not> sublist old p \<Longrightarrow>
    str_replace old new (str_join old ps @ old @ b) = str_join new ps @ new @ str_replace old new b"
  proof (induction ps rule: induct_list012)
    case 1
    then show ?case by simp
  next
    case (2 p)
    then show ?case using str_replace_piece[OF assms, of p new b] by simp
  next
    case (3 p q ps)
    then have "\<not> sublist old p" by simp
    from str_replace_piece[OF assms this, of new "str_join old (q # ps) @ old @ b"] 3
    show ?case by simp
  qed
  with ps show ?thesis by simp
qed

subsection \<open>Facts about the two literals\<close>

lemma old_literal_nonempty: "old_literal \<noteq> []"
  by (simp add: old_literal_def)

lemma return_create_nonempty: "return_create \<noteq> []"
  by (simp add: return_create_def)

lemma old_literal_unbordered:
  "no_head_overlap old_literal old_literal" "no_tail_overlap old_literal old_literal"
  by code_simp+

lemma old_in_new_literal:
  "no_head_overlap old_literal new_literal" "no_tail_overlap old_literal new_literal"
  "str_count old_literal new_literal = 0" "length old_literal \<le> Suc (length new_literal)"
  by code_simp+

lemma return_create_in_new_literal:
  "no_head_overlap return_create new_literal" "no_tail_overlap return_create new_literal"
  "str_count return_create new_literal = 1" "length return_create \<le> Suc (length new_literal)"
  by code_simp+

lemma return_create_in_old_literal:
  "no_head_overlap return_create old_literal" "no_tail_overlap return_create old_literal"
  "str_count return_create old_literal = 0" "length return_create \<le> Suc (length old_literal)"
  by code_simp+

lemma old_self_count:
  "str_count old_literal old_literal = 1" "length old_literal \<le> Suc (length old_literal)"
  by code_simp+

lemma sum_list_zero: "\<forall>p\<in>set ps. f p = (0::nat) \<Longrightarrow> sum_list (map f ps) = 0"
  by (induction ps) auto

lemma transform_pieces:
  "\<exists>ps. ps \<noteq> [] \<and> (\<forall>p\<in>set ps. \<not> sublist old_literal p) \<and> s = str_join old_literal ps
     \<and> transform rules s = str_join new_literal ps"
  using str_replace_pieces[OF old_literal_nonempty, of s new_literal]
  unfolding transform_def by blast

lemma transform_join:
  "ps \<noteq> [] \<Longrightarrow> \<forall>p\<in>set ps. \<not> sublist old_literal p \<Longrightarrow>
     transform rules (str_join old_literal ps) = str_join new_literal ps"
  unfolding transform_def
  by (rule str_replace_join[OF old_literal_nonempty old_literal_unbordered(1)])

lemma transform_absent: "\<not> sublist old_literal s \<Longrightarrow> transform rules s = s"
  unfolding transform_def by (rule str_replace_absent[OF old_literal_nonempty])

lemma transform_no_old: "\<not> sublist old_literal (transform rules s)"
proof -
  obtain ps where ps: "ps \<noteq> []" "\<forall>p\<in>set ps. \<not> sublist old_literal p"
    "transform rules s = str_join new_literal ps"
    using transform_pieces[of s rules] by blast
  have z: "\<forall>p\<in>set ps. str_count old_literal p = 0"
    using ps(2) str_count_sublist[OF old_literal_nonempty] by auto
  have "str_count old_literal (str_join new_literal ps) =
      sum_list (map (str_count old_literal) ps) + (length ps - 1) * str_count old_literal new_literal"
    using old_literal_nonempty old_in_new_literal(1,2,4) ps(1) by (rule str_count_join)
  then have "str_count old_literal (str_join new_literal ps) = 0"
    using sum_list_zero[OF z] old_in_new_literal(3) by simp
  then show ?thesis
    using ps(3) str_count_sublist[OF old_literal_nonempty, of "transform rules s"] by simp
qed

lemma transform_idem: "transform rules (transform rules s) = transform rules s"
  by (rule transform_absent[OF transform_no_old])

lemma transform_count:
  "str_count return_create (transform rules s) =
     str_count return_create s + str_count old_literal s"
proof -
  obtain ps where ps: "ps \<noteq> []" "\<forall>p\<in>set ps. \<not> sublist old_literal p"
    "s = str_join old_literal ps" "transform rules s = str_join new_literal ps"
    using transform_pieces[of s rules] by blast
  let ?S = "sum_list (map (str_count return_create) ps)"
  have z: "\<forall>p\<in>set ps. str_count old_literal p = 0"
    using ps(2) str_count_sublist[OF old_literal_nonempty] by auto
  have out: "str_count return_create (str_join new_literal ps) = ?S + (length ps - 1) * 1"
    using str_count_join[OF return_create_nonempty return_create_in_new_literal(1,2,4) ps(1)]
      return_create_in_new_literal(3) by simp
  have inp: "str_count return_create (str_join old_literal ps) = ?S"
    using str_count_join[OF return_create_nonempty return_create_in_old_literal(1,2,4) ps(1)]
      return_create_in_old_literal(3) by simp
  have occ: "str_count old_literal (str_join old_literal ps) = length ps - 1"
    using str_count_join[OF old_literal_nonempty old_literal_unbordered old_self_count(2) ps(1)]
      old_self_count(1) sum_list_zero[OF z] by simp
  from out inp occ ps(3,4) show ?thesis by simp
qed

subsection \<open>Facts about a run\<close>

lemma run_ok:
  assumes "files w target_path = Some f" "readable f" "writable f"
  shows "run rules w =
    (Inr (), w\<lparr>files := (files w)(target_path \<mapsto> f\<lparr>content := transform rules (content f)\<rparr>),
               stdout := stdout w @ notice\<rparr>)"
  using assms by (simp add: run_def open_read_def open_write_def print_def)

lemma run_missing: "files w target_path = None \<Longrightarrow> run rules w = (Inl FileNotFoundError, w)"
  by (simp add: run_def open_read_def)

lemma run_unreadable:
  "files w target_path = Some f \<Longrightarrow> \<not> readable f \<Longrightarrow> run rules w = (Inl PermissionError, w)"
  by (simp add: run_def open_read_def)

lemma run_unwritable:
  "files w target_path = Some f \<Longrightarrow> readable f \<Longrightarrow> \<not> writable f \<Longrightarrow>
     run rules w = (Inl PermissionError, w)"
  by (simp add: run_def open_read_def open_write_def)

lemma run_Inr:
  assumes "run rules w = (Inr u, w')"
  shows "\<exists>f. files w target_path = Some f \<and> readable f \<and> writable f"
  using assms
  by (auto simp: run_def open_read_def open_write_def split: option.splits if_splits sum.splits)

lemma sample_world_file:
  "files (sample_world s) target_path = Some \<lparr>content = s, readable = True, writable = True\<rparr>"
  by (simp add: sample_world_def)

lemma run_sample_world:
  "run rules (sample_world s) =
     (Inr (), \<lparr>files = [target_path \<mapsto> \<lparr>content = transform rules s, readable = True, writable = True\<rparr>],
               stdout = notice, environ = Map.empty, argv = []\<rparr>)"
  using run_ok[OF sample_world_file, of s rules] by (simp add: sample_world_def)

section \<open>The claims\<close>

lemma follow_facts:
  "has_match (fst rule_FollowUser) follow_input"
  "spec_apply fixes_table follow_input = follow_expected"
  "follow_expected \<noteq> follow_input"
  "transform fixes_table follow_input = follow_input"
  by code_simp+

text \<open>
  C1. The claim: every rule of the table is applied, in order, as a global substitution, and
  its effect is present in the text written back. The script never applies the table: on
  a text in which the FollowUser rule has a match, applying the rules as specified gives
  the rewritten text, while the run writes the text back as it was.
\<close>

theorem rule_table_not_applied:
  "has_match (fst rule_FollowUser) follow_input \<and>
   spec_apply fixes_table follow_input = follow_expected \<and>
   follow_expected \<noteq> follow_input \<and>
   fix_protos (sample_world follow_input) = (Inr (), (sample_world follow_input)\<lparr>stdout := notice\<rparr>)"
  using follow_facts run_sample_world[of fixes_table follow_input]
  by (simp add: fix_protos_def sample_world_def)

text \<open>
  C2. For a readable and writable target, the text can be cut at occurrences of the old
  literal into pieces free of it, and for every such cut and every rule table in the
  place of \<open>fixes\<close> the run writes back the same pieces joined by the new literal and
  prints the notice: the run is the single literal replacement and the table has no
  effect.
\<close>

theorem run_is_literal_replacement:
  assumes "files w target_path = Some f" "readable f" "writable f"
  shows "(\<exists>ps. ps \<noteq> [] \<and> (\<forall>p\<in>set ps. \<not> sublist old_literal p) \<and>
            content f = str_join old_literal ps) \<and>
         (\<forall>ps rules. ps \<noteq> [] \<longrightarrow> (\<forall>p\<in>set ps. \<not> sublist old_literal p) \<longrightarrow>
            content f = str_join old_literal ps \<longrightarrow>
            run rules w =
              (Inr (), w\<lparr>files := (files w)(target_path \<mapsto> f\<lparr>content := str_join new_literal ps\<rparr>),
                         stdout := stdout w @ notice\<rparr>))"
proof (intro conjI allI impI)
  show "\<exists>ps. ps \<noteq> [] \<and> (\<forall>p\<in>set ps. \<not> sublist old_literal p) \<and>
      content f = str_join old_literal ps"
    using transform_pieces[of "content f" fixes_table] by blast
next
  fix ps rules
  assume "ps \<noteq> []" "\<forall>p\<in>set ps. \<not> sublist old_literal p"
    "content f = str_join old_literal ps"
  then have "transform rules (content f) = str_join new_literal ps"
    using transform_join[of ps rules] by simp
  then show "run rules w =
      (Inr (), w\<lparr>files := (files w)(target_path \<mapsto> f\<lparr>content := str_join new_literal ps\<rparr>),
                 stdout := stdout w @ notice\<rparr>)"
    using run_ok[OF assms, of rules] by simp
qed

theorem run_is_literal_replacement_witness:
  "run [] (sample_world (str_join old_literal [''a'', ''b'', ''c''])) =
     (Inr (), (sample_world (str_join new_literal [''a'', ''b'', ''c'']))\<lparr>stdout := notice\<rparr>)"
proof -
  let ?f = "\<lparr>content = str_join old_literal [''a'', ''b'', ''c''], readable = True, writable = True\<rparr>"
  let ?w = "sample_world (str_join old_literal [''a'', ''b'', ''c''])"
  have f: "files ?w target_path = Some ?f" by (rule sample_world_file)
  have r: "readable ?f" "writable ?f" by simp_all
  have p: "\<forall>p\<in>set [''a'', ''b'', ''c'']. \<not> sublist old_literal p"
    by (simp add: old_literal_def sublist_code(3))
  from run_is_literal_replacement[OF f r, THEN conjunct2, rule_format, of "[''a'', ''b'', ''c'']" "[]"] p
  show ?thesis by (simp add: sample_world_def)
qed

lemma otp_facts:
  "sublist otp_fragment otp_input"
  "transform fixes_table otp_input = otp_input"
  "\<not> sublist otp_create otp_input"
  "re_sub (fst rule_SendOTP) (snd rule_SendOTP) otp_input = otp_expected"
  "sublist otp_create otp_expected"
  by code_simp+

text \<open>
  C3. The claim: the object literal returned inside \<open>async sendOTP\<close> is rewritten to the
  \<open>create(SendOTPResponseSchema, ...)\<close> call. On a text with that fragment, the SendOTP
  rule alone would produce the call, but the run writes the text back unchanged, and the
  call is not in it.
\<close>

theorem sendOTP_fragment_not_rewritten:
  "sublist otp_fragment otp_input \<and>
   re_sub (fst rule_SendOTP) (snd rule_SendOTP) otp_input = otp_expected \<and>
   sublist otp_create otp_expected \<and>
   fix_protos (sample_world otp_input) = (Inr (), (sample_world otp_input)\<lparr>stdout := notice\<rparr>) \<and>
   \<not> sublist otp_create otp_input"
  using otp_facts run_sample_world[of fixes_table otp_input]
  by (simp add: fix_protos_def sample_world_def)

lemma users_facts:
  "spec_apply fixes_table users_input = users_expected"
  "users_expected \<noteq> users_input"
  "transform fixes_table users_input = users_input"
  by code_simp+

text \<open>
  C4. The claim: a \<open>return { users };\<close> before \<open>async listFollowers\<close> becomes the
  ListFollowing call and one before \<open>async getUserProfile\<close> the ListCloseFriends call. On
  a text with both occurrences, applying the rules as specified does that, but the run
  writes the text back unchanged.
\<close>

theorem users_occurrences_not_rewritten:
  "spec_apply fixes_table users_input = users_expected \<and>
   users_expected \<noteq> users_input \<and>
   fix_protos (sample_world users_input) = (Inr (), (sample_world users_input)\<lparr>stdout := notice\<rparr>)"
  using users_facts run_sample_world[of fixes_table users_input]
  by (simp add: fix_protos_def sample_world_def)

text \<open>
  C5. If the text of the target is \<open>a\<close>, the old literal, \<open>b\<close>, then the run writes back
  the rewritten \<open>a\<close>, the new literal, and the rewritten \<open>b\<close>: the new literal stands in the
  place of that occurrence of the old one.
\<close>

theorem literal_fragment_replaced_in_place:
  assumes "files w target_path = Some f" "readable f" "writable f"
    and "content f = a @ old_literal @ b"
  shows "fix_protos w =
    (Inr (), w\<lparr>files := (files w)(target_path \<mapsto>
                 f\<lparr>content := transform fixes_table a @ new_literal @ transform fixes_table b\<rparr>),
               stdout := stdout w @ notice\<rparr>)"
proof -
  have "transform fixes_table (content f) =
      transform fixes_table a @ new_literal @ transform fixes_table b"
    unfolding transform_def assms(4)
    by (rule str_replace_around[OF old_literal_nonempty old_literal_unbordered(1)])
  then show ?thesis
    using run_ok[OF assms(1-3), of fixes_table] by (simp add: fix_protos_def)
qed

lemma small_facts:
  "transform fixes_table ''  x;'' = ''  x;''"
  "transform fixes_table ''req) {'' = ''req) {''"
  by code_simp+

theorem literal_fragment_replaced_in_place_witness:
  "fix_protos (sample_world (''  x;'' @ old_literal @ ''req) {'')) =
     (Inr (), (sample_world (''  x;'' @ new_literal @ ''req) {''))\<lparr>stdout := notice\<rparr>)"
proof -
  let ?s = "''  x;'' @ old_literal @ ''req) {''"
  let ?f = "\<lparr>content = ?s, readable = True, writable = True\<rparr>"
  have f: "files (sample_world ?s) target_path = Some ?f" by (rule sample_world_file)
  have r: "readable ?f" "writable ?f" "content ?f = ''  x;'' @ old_literal @ ''req) {''"
    by simp_all
  from literal_fragment_replaced_in_place[OF f r] small_facts
  show ?thesis by (simp add: sample_world_def)
qed

lemma fix_protos_twice_files:
  "files (snd (fix_protos (snd (fix_protos w)))) = files (snd (fix_protos w))"
proof (cases "files w target_path")
  case None
  then show ?thesis by (simp add: fix_protos_def run_missing)
next
  case (Some f)
  show ?thesis
  proof (cases "readable f \<and> writable f")
    case False
    then have "fix_protos w = (Inl PermissionError, w)"
      using Some run_unreadable[of w f fixes_table] run_unwritable[of w f fixes_table]
      by (auto simp: fix_protos_def)
    then show ?thesis by simp
  next
    case True
    let ?f1 = "f\<lparr>content := transform fixes_table (content f)\<rparr>"
    let ?w1 = "w\<lparr>files := (files w)(target_path \<mapsto> ?f1), stdout := stdout w @ notice\<rparr>"
    have one: "fix_protos w = (Inr (), ?w1)"
      using run_ok[OF Some, of fixes_table] True by (simp add: fix_protos_def)
    have "files ?w1 target_path = Some ?f1" "readable ?f1" "writable ?f1"
      using True by simp_all
    from run_ok[OF this, of fixes_table]
    have "files (snd (fix_protos ?w1)) = files ?w1"
      by (simp add: fix_protos_def transform_idem)
    with one show ?thesis by simp
  qed
qed

text \<open>
  C6. The transformation is idempotent: transforming a transformed text changes nothing,
  since the old literal does not occur in a transformed text, and a second run of the
  script leaves every file as the first run left it.
\<close>

theorem transformation_idempotent:
  "transform fixes_table (transform fixes_table s) = transform fixes_table s \<and>
   \<not> sublist old_literal (transform fixes_table s) \<and>
   files (snd (fix_protos (snd (fix_protos w)))) = files (snd (fix_protos w))"
  using transform_idem[of fixes_table s] transform_no_old[of fixes_table s]
    fix_protos_twice_files[of w] by simp

lemma count_facts:
  "str_count return_create (transform fixes_table return_create) = 1"
  "length (filter (\<lambda>(r, rp). has_match r return_create) fixes_table) = 0"
  "list_all (\<lambda>(r, rp). \<not> has_match r counted_input) fixes_table"
  "str_count return_create counted_input = 1"
  "str_count old_literal counted_input = 1"
  by code_simp+

text \<open>
  C7 as stated fails: on the text \<open>return create(\<close> no rule of the table has a match,
  and the output holds one occurrence of \<open>return create(\<close>.
\<close>

theorem return_create_count_counterexample:
  "str_count return_create (transform fixes_table return_create) \<noteq>
     length (filter (\<lambda>(r, rp). has_match r return_create) fixes_table)"
  using count_facts(1,2) by simp

text \<open>
  C7 as amended. For a text in which no rule of the table has a match, the number of
  occurrences of \<open>return create(\<close> in the output is the number in the input plus the
  number of occurrences of the old literal in the input.
\<close>

theorem return_create_count:
  assumes "list_all (\<lambda>(r, rp). \<not> has_match r s) fixes_table"
  shows "str_count return_create (transform fixes_table s) =
     str_count return_create s + str_count old_literal s"
  by (rule transform_count)

theorem return_create_count_witness:
  "str_count return_create (transform fixes_table counted_input) = 2"
  using return_create_count[OF count_facts(3)] count_facts(4,5) by simp

text \<open>
  C8. For a readable and writable target the run raises no error, writes the file back and
  prints the notice, whatever matches. Where the old literal has no occurrence the text
  written is the text read; a rule of the table with no match changes nothing (the run
  without it writes the same text); and the pieces of the text between the replaced
  occurrences are written as they were.
\<close>

theorem zero_match_rule_changes_nothing:
  assumes "files w target_path = Some f" "readable f" "writable f"
  shows "fix_protos w =
      (Inr (), w\<lparr>files := (files w)(target_path \<mapsto>
                   f\<lparr>content := transform fixes_table (content f)\<rparr>),
                 stdout := stdout w @ notice\<rparr>) \<and>
    (\<not> sublist old_literal (content f) \<longrightarrow> transform fixes_table (content f) = content f) \<and>
    (\<forall>r\<in>set fixes_table. \<not> has_match (fst r) (content f) \<longrightarrow>
       run (removeAll r fixes_table) w = fix_protos w) \<and>
    (\<exists>ps. ps \<noteq> [] \<and> content f = str_join old_literal ps \<and>
       transform fixes_table (content f) = str_join new_literal ps)"
proof (intro conjI ballI impI)
  show "fix_protos w =
      (Inr (), w\<lparr>files := (files w)(target_path \<mapsto>
                   f\<lparr>content := transform fixes_table (content f)\<rparr>),
                 stdout := stdout w @ notice\<rparr>)"
    using run_ok[OF assms, of fixes_table] by (simp add: fix_protos_def)
next
  assume "\<not> sublist old_literal (content f)"
  then show "transform fixes_table (content f) = content f" by (rule transform_absent)
next
  fix r
  show "run (removeAll r fixes_table) w = fix_protos w"
    using run_ok[OF assms, of fixes_table] run_ok[OF assms, of "removeAll r fixes_table"]
    by (simp add: fix_protos_def transform_def)
next
  show "\<exists>ps. ps \<noteq> [] \<and> content f = str_join old_literal ps \<and>
       transform fixes_table (content f) = str_join new_literal ps"
    using transform_pieces[of "content f" fixes_table] by blast
qed

lemma unmatched_facts:
  "\<not> sublist old_literal return_create"
  by code_simp

theorem zero_match_rule_changes_nothing_witness:
  "fix_protos (sample_world return_create) =
     (Inr (), (sample_world return_create)\<lparr>stdout := notice\<rparr>)"
proof -
  let ?f = "\<lparr>content = return_create, readable = True, writable = True\<rparr>"
  have f: "files (sample_world return_create) target_path = Some ?f"
    by (rule sample_world_file)
  have r: "readable ?f" "writable ?f" by simp_all
  from zero_match_rule_changes_nothing[OF f r] unmatched_facts
  show ?thesis by (simp add: sample_world_def)
qed

text \<open>
  C9. A missing or unreadable target makes the read raise an \<open>OSError\<close> and ends the run
  with the world as it was: nothing is transformed, written or printed. A target that
  cannot be written makes the write raise, and the run ends the same way.
\<close>

theorem io_errors_abort:
  "(files w target_path = None \<longrightarrow> fix_protos w = (Inl FileNotFoundError, w)) \<and>
   (\<forall>f. files w target_path = Some f \<and> \<not> readable f \<longrightarrow>
      fix_protos w = (Inl PermissionError, w)) \<and>
   (\<forall>f. files w target_path = Some f \<and> readable f \<and> \<not> writable f \<longrightarrow>
      fix_protos w = (Inl PermissionError, w))"
  by (auto simp: fix_protos_def run_missing run_unreadable run_unwritable)

theorem io_errors_abort_witness:
  "fix_protos empty_world = (Inl FileNotFoundError, empty_world) \<and>
   fix_protos (locked_world False True) = (Inl PermissionError, locked_world False True) \<and>
   fix_protos (locked_world True False) = (Inl PermissionError, locked_world True False)"
  using io_errors_abort[of empty_world] io_errors_abort[of "locked_world False True"]
    io_errors_abort[of "locked_world True False"]
  by (simp add: empty_world_def locked_world_def)

text \<open>
  C10. A run that ends without an error has changed the text of the target file and
  appended the notice to the standard output, and nothing else: every other file, the
  attributes of the target, the environment and the arguments are as before; and with any
  other environment and arguments the run does the same.
\<close>

theorem successful_run_effects:
  assumes "fix_protos w = (Inr (), w')"
  shows "\<exists>f. files w target_path = Some f \<and>
    files w' = (files w)(target_path \<mapsto> f\<lparr>content := transform fixes_table (content f)\<rparr>) \<and>
    stdout w' = stdout w @ notice \<and> environ w' = environ w \<and> argv w' = argv w \<and>
    fix_protos (w\<lparr>environ := e, argv := a\<rparr>) = (Inr (), w'\<lparr>environ := e, argv := a\<rparr>)"
proof -
  from assms obtain f where f: "files w target_path = Some f" "readable f" "writable f"
    using run_Inr[of fixes_table w "()" w'] by (auto simp: fix_protos_def)
  let ?w2 = "w\<lparr>environ := e, argv := a\<rparr>"
  have w': "w' = w\<lparr>files := (files w)(target_path \<mapsto>
      f\<lparr>content := transform fixes_table (content f)\<rparr>), stdout := stdout w @ notice\<rparr>"
    using run_ok[OF f, of fixes_table] assms by (simp add: fix_protos_def)
  have "files ?w2 target_path = Some f" using f(1) by simp
  from run_ok[OF this f(2,3), of fixes_table]
  have "fix_protos ?w2 = (Inr (), w'\<lparr>environ := e, argv := a\<rparr>)"
    by (simp add: fix_protos_def w')
  with f(1) w' show ?thesis by simp
qed

theorem successful_run_effects_witness:
  "files (snd (fix_protos (sample_world old_literal))) =
     [target_path \<mapsto> \<lparr>content = new_literal, readable = True, writable = True\<rparr>] \<and>
   stdout (snd (fix_protos (sample_world old_literal))) = notice"
proof -
  let ?w = "sample_world old_literal"
  let ?w' = "snd (fix_protos ?w)"
  have t: "transform fixes_table old_literal = new_literal" by code_simp
  have r: "fix_protos ?w = (Inr (), ?w')"
    using run_sample_world[of fixes_table old_literal] by (simp add: fix_protos_def)
  from successful_run_effects[OF r, where e = Map.empty and a = "[]"] obtain f where
    f: "files ?w target_path = Some f"
    and w': "files ?w' = (files ?w)(target_path \<mapsto> f\<lparr>content := transform fixes_table (content f)\<rparr>)"
      "stdout ?w' = stdout ?w @ notice"
    by blast
  from f have "f = \<lparr>content = old_literal, readable = True, writable = True\<rparr>"
    by (simp add: sample_world_file)
  with w' t show ?thesis by (simp add: sample_world_def)
qed

end
